theory Spec2Isabelle
  imports Main "HOL-Library.AList" "HOL-Library.Sublist"
begin

section \<open>JavaScript values\<close>

text \<open>
  The program is TypeScript over untyped JSON payloads (\<^verbatim>\<open>body: any\<close>, \<^verbatim>\<open>details: any\<close>,
  the result of \<^verbatim>\<open>JSON.parse\<close>), so messages are modelled as JavaScript values rather than
  as a closed record. An object is its list of own enumerable properties, all of them data,
  together with a tag saying which \<^verbatim>\<open>toString\<close> method it has: the one of
  \<^verbatim>\<open>Object.prototype\<close> (object literals, parsed JSON objects), one returning a given
  string (class instances, arrays), or none at all (\<^verbatim>\<open>Object.create(null)\<close>). An own
  data property named \<^verbatim>\<open>toString\<close> shadows the method. Arrays are objects for every
  operation the program applies to a message (truthiness, reading and assigning a property).

  A number is represented by the text that \<^verbatim>\<open>Number.prototype.toString()\<close> gives for it
  (\<^verbatim>\<open>42\<close>, \<^verbatim>\<open>1.5\<close>, \<^verbatim>\<open>1e+21\<close>, \<^verbatim>\<open>NaN\<close>, \<^verbatim>\<open>Infinity\<close>), which
  is all the program observes of a number in a payload besides its truth value; both zeros
  have the text \<^verbatim>\<open>0\<close>.
\<close>

datatype proto = ObjectPrototype | CustomToString string | NoToString

datatype jsval =
    JUndefined
  | JNull
  | JBool bool
  | JNum string
  | JStr string
  | JObj proto "(string \<times> jsval) list"

datatype js_exn = TypeError | RangeError

text \<open>The object literal \<^verbatim>\<open>{ k1: v1, ... }\<close>.\<close>

definition object :: "(string \<times> jsval) list \<Rightarrow> jsval" where
  "object props = JObj ObjectPrototype props"

text \<open>ToBoolean, as used by \<^verbatim>\<open>&&\<close>, \<^verbatim>\<open>!\<close>, \<^verbatim>\<open>? :\<close> and \<^verbatim>\<open>if\<close>.\<close>

fun truthy :: "jsval \<Rightarrow> bool" where
  "truthy JUndefined = False"
| "truthy JNull = False"
| "truthy (JBool b) = b"
| "truthy (JNum t) = (t \<noteq> ''0'' \<and> t \<noteq> ''NaN'')"
| "truthy (JStr s) = (s \<noteq> [])"
| "truthy (JObj p props) = True"

text \<open>
  Reading a property \<^verbatim>\<open>v.k\<close> for a key that no prototype defines (\<^verbatim>\<open>error\<close>,
  \<^verbatim>\<open>body\<close>, \<^verbatim>\<open>stack\<close>, ...): a TypeError on \<^verbatim>\<open>null\<close> and \<^verbatim>\<open>undefined\<close>,
  \<^verbatim>\<open>undefined\<close> on the other primitives and on an object without the key.
\<close>

fun get_prop :: "jsval \<Rightarrow> string \<Rightarrow> js_exn + jsval" where
  "get_prop JUndefined k = Inl TypeError"
| "get_prop JNull k = Inl TypeError"
| "get_prop (JObj p props) k = Inr (case map_of props k of Some v \<Rightarrow> v | None \<Rightarrow> JUndefined)"
| "get_prop v k = Inr JUndefined"

text \<open>
  The assignment \<^verbatim>\<open>v.k = x\<close> in strict mode (the file is an ES module, so the emitted code
  is strict): on an object the property is overwritten in place or appended; on a primitive it
  is a TypeError.
\<close>

fun assign_prop :: "jsval \<Rightarrow> string \<Rightarrow> jsval \<Rightarrow> js_exn + jsval" where
  "assign_prop (JObj p props) k x = Inr (JObj p (AList.update k x props))"
| "assign_prop v k x = Inl TypeError"


section \<open>Frame Reader: \<^verbatim>\<open>messagesReader\<close>\<close>

definition newline :: char where
  "newline = CHR 0x0A"

text \<open>\<^verbatim>\<open>data.split('\n')\<close>: the pieces between newlines; never the empty list.\<close>

fun split_nl :: "string \<Rightarrow> string list" where
  "split_nl [] = [[]]"
| "split_nl (c # cs) =
     (if c = newline then [] # split_nl cs
      else (case split_nl cs of p # ps \<Rightarrow> (c # p) # ps | [] \<Rightarrow> [[c]]))"

text \<open>
  \<^verbatim>\<open>JSON.parse\<close> belongs to the platform, not to this repository: it is a parameter.
  \<open>Inl (message, name)\<close> is the thrown parser failure \<^verbatim>\<open>e\<close> with its \<^verbatim>\<open>e.message\<close> and
  \<^verbatim>\<open>e.name\<close>; \<open>Inr v\<close> is the parsed value.
\<close>

type_synonym parser = "string \<Rightarrow> (string \<times> string) + jsval"

text \<open>
  \<^verbatim>\<open>MessageReaderContext.reqestIdGenerator(prefix?: string): string\<close>: a generator with
  private state \<open>'g\<close>. The reader is bound to a context (\<open>Some gen\<close>) on the accepting side
  and unbound (\<open>None\<close>) on the client.
\<close>

type_synonym 'g idgen = "string option \<Rightarrow> 'g \<Rightarrow> string \<times> 'g"

text \<open>Lines 64-68: the message of one raw frame.\<close>

definition frame_message :: "parser \<Rightarrow> string \<Rightarrow> jsval" where
  "frame_message parse rawBody =
     (if rawBody \<noteq> [] then
        (case parse rawBody of
           Inr v \<Rightarrow> v
         | Inl (msg, nm) \<Rightarrow>
             object [(''error'', JStr msg), (''type'', JStr nm), (''invalidResponse'', JStr rawBody)])
      else object [(''body'', JNull), (''emptyResponse'', JBool True)])"

text \<open>
  Line 69: \<^verbatim>\<open>if (message && this && this.reqestIdGenerator) message.id = this.reqestIdGenerator(socket.id)\<close>.
\<close>

definition tag_message ::
  "'g idgen option \<Rightarrow> string option \<Rightarrow> jsval \<Rightarrow> 'g \<Rightarrow> (js_exn + jsval) \<times> 'g" where
  "tag_message ctx sid message g =
     (case ctx of
        None \<Rightarrow> (Inr message, g)
      | Some gen \<Rightarrow>
          if truthy message
          then (case gen sid g of (i, g') \<Rightarrow> (assign_prop message ''id'' (JStr i), g'))
          else (Inr message, g))"

text \<open>
  The \<^verbatim>\<open>for\<close> loop of lines 60-73 over the pieces \<^verbatim>\<open>chunks[i..]\<close> of one data event.
  The result is the messages yielded, the exception that ended the generator (if any), the
  buffer left and the generator state.
\<close>

fun for_chunks ::
  "parser \<Rightarrow> 'g idgen option \<Rightarrow> string option \<Rightarrow> string list \<Rightarrow> string list \<Rightarrow> 'g
   \<Rightarrow> jsval list \<times> js_exn option \<times> string list \<times> 'g" where
  "for_chunks parse ctx sid buffer [] g = ([], None, buffer, g)"
| "for_chunks parse ctx sid buffer [c] g = ([], None, buffer @ [c], g)"
| "for_chunks parse ctx sid buffer (c # c' # cs) g =
     (let rawBody = concat (buffer @ [c]) in
      case tag_message ctx sid (frame_message parse rawBody) g of
        (Inl e, g') \<Rightarrow> ([], Some e, [], g')
      | (Inr message, g') \<Rightarrow>
          (case for_chunks parse ctx sid [] (c' # cs) g' of
             (ms, r, b, g'') \<Rightarrow> (message # ms, r, b, g'')))"

text \<open>How the generator's sequence ends: the stream ended, or an exception escaped.\<close>

datatype ending = Ended | Raised js_exn

text \<open>
  The \<^verbatim>\<open>while (true)\<close> loop of lines 53-74 over the data events that the reader hears,
  the list's end being an \<^verbatim>\<open>'end'\<close> event that it hears. The reader listens, with
  \<^verbatim>\<open>once\<close>, only while it awaits on line 54: an event emitted at another moment is not in
  this list. Which events are heard depends on when the consumer asks for messages; that is
  the matter of the generator object further down, and \<open>read_loop\<close> is what that object
  delivers when it hears every event.
\<close>

fun read_loop ::
  "parser \<Rightarrow> 'g idgen option \<Rightarrow> string option \<Rightarrow> string list \<Rightarrow> string list \<Rightarrow> 'g
   \<Rightarrow> jsval list \<times> ending \<times> 'g" where
  "read_loop parse ctx sid buffer [] g = ([], Ended, g)"
| "read_loop parse ctx sid buffer (d # ds) g =
     (case for_chunks parse ctx sid buffer (split_nl d) g of
        (ms, Some e, b, g') \<Rightarrow> (ms, Raised e, g')
      | (ms, None, b, g') \<Rightarrow>
          (case read_loop parse ctx sid b ds g' of
             (ms', r, g'') \<Rightarrow> (ms @ ms', r, g'')))"

definition messagesReader ::
  "parser \<Rightarrow> 'g idgen option \<Rightarrow> string option \<Rightarrow> string list \<Rightarrow> 'g \<Rightarrow> jsval list \<times> ending \<times> 'g" where
  "messagesReader parse ctx sid datas g = read_loop parse ctx sid [] datas g"


section \<open>Error objects\<close>

text \<open>
  An error object is its class and its list of own properties. \<^verbatim>\<open>name\<close> and
  \<^verbatim>\<open>message\<close> are inherited from the prototype unless an own property shadows them: the
  name of a native class (\<^verbatim>\<open>"Error"\<close>, \<^verbatim>\<open>"TypeError"\<close>, ...), and \<^verbatim>\<open>"Error"\<close>
  for the two classes of this file, which extend \<^verbatim>\<open>Error\<close> and set no name.
\<close>

datatype error_class = NativeError string | ErrorResponseClass | RemoteErrorClass

datatype error_instance = ErrorInstance error_class "(string \<times> jsval) list"

fun class_name :: "error_class \<Rightarrow> string" where
  "class_name (NativeError nm) = nm"
| "class_name ErrorResponseClass = ''Error''"
| "class_name RemoteErrorClass = ''Error''"

fun error_prop :: "error_instance \<Rightarrow> string \<Rightarrow> jsval" where
  "error_prop (ErrorInstance cls own) k =
     (case map_of own k of
        Some v \<Rightarrow> v
      | None \<Rightarrow>
          if k = ''name'' then JStr (class_name cls)
          else if k = ''message'' then JStr []
          else JUndefined)"



section \<open>The async-iterator protocol of the reader\<close>

text \<open>
  What a promise settles with. A rejection carries a native exception or the
  \<^verbatim>\<open>RemoteError\<close> that line 228 throws.
\<close>

datatype failure = Native js_exn | Remote error_instance

datatype 'a promise = Fulfilled 'a | Rejected failure

text \<open>The \<^verbatim>\<open>{value, done}\<close> pair that \<^verbatim>\<open>reader.next()\<close> resolves with.\<close>

datatype iter_result = IterValue jsval | IterDone

text \<open>
  The generator object that \<^verbatim>\<open>messagesReader(socket)\<close> returns, driven by the consumer
  and by the socket. Its body is suspended at one of two places: on line 54, awaiting the race
  of \<^verbatim>\<open>once(socket, 'data')\<close> and \<^verbatim>\<open>once(socket, 'end')\<close>, the only moment at which it
  has listeners that the race still waits for; or at the \<^verbatim>\<open>yield\<close> of line 71, with the
  pieces \<^verbatim>\<open>chunks[i+1..]\<close> still to go and no listener. Before the first \<^verbatim>\<open>next()\<close> the
  body has not started, and after a \<^verbatim>\<open>break\<close> or an exception it is completed.
\<close>

datatype control = NotStarted | Awaiting | AtYield "string list" | Completed

record 'g generator =
  gen_control :: control
  gen_buffer :: "string list"
  gen_ids :: 'g
  gen_waiting :: nat

text \<open>
  \<open>gen_waiting\<close> counts the \<^verbatim>\<open>next()\<close> requests not yet settled; an async generator
  queues them and settles them in order. What happens, one turn of the event loop at a time:
  the consumer calls \<^verbatim>\<open>next()\<close>, or the socket emits an event.
\<close>

datatype event = Data string | End

datatype action = Next | Emit event

definition new_reader :: "'g \<Rightarrow> 'g generator" where
  "new_reader g = \<lparr>gen_control = NotStarted, gen_buffer = [], gen_ids = g, gen_waiting = 0\<rparr>"

text \<open>
  The body running the \<^verbatim>\<open>for\<close> loop over the pieces left, with \<open>w\<close> requests waiting
  (at least one, or it would not run). A \<^verbatim>\<open>yield\<close> settles the oldest request and suspends
  the body unless another request is waiting; the end of the loop leads back to the await of
  line 54; an exception rejects the oldest request and completes the generator, so that the
  other requests get \<^verbatim>\<open>done\<close>.
\<close>

fun run_body ::
  "parser \<Rightarrow> 'g idgen option \<Rightarrow> string option \<Rightarrow> string list \<Rightarrow> string list \<Rightarrow> 'g \<Rightarrow> nat
   \<Rightarrow> iter_result promise list \<times> 'g generator" where
  "run_body parse ctx sid buffer [] g w =
     ([], \<lparr>gen_control = Awaiting, gen_buffer = buffer, gen_ids = g, gen_waiting = w\<rparr>)"
| "run_body parse ctx sid buffer [c] g w =
     ([], \<lparr>gen_control = Awaiting, gen_buffer = buffer @ [c], gen_ids = g, gen_waiting = w\<rparr>)"
| "run_body parse ctx sid buffer (c # c' # cs) g w =
     (let rawBody = concat (buffer @ [c]) in
      case tag_message ctx sid (frame_message parse rawBody) g of
        (Inl e, g') \<Rightarrow>
          (Rejected (Native e) # replicate (w - 1) (Fulfilled IterDone),
           \<lparr>gen_control = Completed, gen_buffer = [], gen_ids = g', gen_waiting = 0\<rparr>)
      | (Inr message, g') \<Rightarrow>
          if w \<le> 1
          then ([Fulfilled (IterValue message)],
                \<lparr>gen_control = AtYield (c' # cs), gen_buffer = [], gen_ids = g', gen_waiting = 0\<rparr>)
          else (case run_body parse ctx sid [] (c' # cs) g' (w - 1) of
                  (ss, st) \<Rightarrow> (Fulfilled (IterValue message) # ss, st)))"

text \<open>
  One turn: the settlements it brings about, in order, and the generator after it. An event
  is heard only by a generator that is awaiting; emitted at any other moment it finds no
  listener of a pending race and is lost to the reader.
\<close>

fun reader_step ::
  "parser \<Rightarrow> 'g idgen option \<Rightarrow> string option \<Rightarrow> action \<Rightarrow> 'g generator
   \<Rightarrow> iter_result promise list \<times> 'g generator" where
  "reader_step parse ctx sid Next st =
     (case gen_control st of
        NotStarted \<Rightarrow> ([], st\<lparr>gen_control := Awaiting, gen_buffer := [], gen_waiting := gen_waiting st + 1\<rparr>)
      | Awaiting \<Rightarrow> ([], st\<lparr>gen_waiting := gen_waiting st + 1\<rparr>)
      | AtYield rest \<Rightarrow>
          run_body parse ctx sid (gen_buffer st) rest (gen_ids st) (gen_waiting st + 1)
      | Completed \<Rightarrow> ([Fulfilled IterDone], st))"
| "reader_step parse ctx sid (Emit (Data d)) st =
     (case gen_control st of
        Awaiting \<Rightarrow>
          run_body parse ctx sid (gen_buffer st) (split_nl d) (gen_ids st) (gen_waiting st)
      | _ \<Rightarrow> ([], st))"
| "reader_step parse ctx sid (Emit End) st =
     (case gen_control st of
        Awaiting \<Rightarrow>
          (replicate (gen_waiting st) (Fulfilled IterDone),
           st\<lparr>gen_control := Completed, gen_waiting := 0\<rparr>)
      | _ \<Rightarrow> ([], st))"

fun reader_run ::
  "parser \<Rightarrow> 'g idgen option \<Rightarrow> string option \<Rightarrow> action list \<Rightarrow> 'g generator
   \<Rightarrow> iter_result promise list \<times> 'g generator" where
  "reader_run parse ctx sid [] st = ([], st)"
| "reader_run parse ctx sid (a # acts) st =
     (case reader_step parse ctx sid a st of
        (ss, st') \<Rightarrow>
          (case reader_run parse ctx sid acts st' of (ss', st'') \<Rightarrow> (ss @ ss', st'')))"


section \<open>Values as text\<close>

definition digit_char :: "nat \<Rightarrow> char" where
  "digit_char d = ''0123456789abcdefghijklmnopqrstuvwxyz'' ! d"

function radix_digits :: "nat \<Rightarrow> nat \<Rightarrow> string" where
  "radix_digits r n =
     (if r < 2 \<or> n < r then [digit_char n]
      else radix_digits r (n div r) @ [digit_char (n mod r)])"
  by pat_completeness auto
termination
  by (relation "measure (\<lambda>(r, n). n)") auto

declare radix_digits.simps [simp del]

text \<open>
  \<^verbatim>\<open>Number.prototype.toString(radix)\<close> on a non-negative integer: a RangeError unless the
  radix is between 2 and 36.
\<close>

definition number_toString :: "nat \<Rightarrow> int \<Rightarrow> js_exn + string" where
  "number_toString n radix =
     (if radix < 2 \<or> 36 < radix then Inl RangeError else Inr (radix_digits (nat radix) n))"

text \<open>
  The property \<^verbatim>\<open>e.toString\<close> of a value that is not \<^verbatim>\<open>null\<close> or
  \<^verbatim>\<open>undefined\<close>: absent, an own data property (which cannot be called), or a method
  together with the text that calling it returns.
\<close>

datatype toString_prop = Absent | OwnData jsval | Method string

fun toString_of :: "jsval \<Rightarrow> toString_prop" where
  "toString_of (JBool b) = Method (if b then ''true'' else ''false'')"
| "toString_of (JNum t) = Method t"
| "toString_of (JStr s) = Method s"
| "toString_of (JObj p props) =
     (case map_of props ''toString'' of
        Some v \<Rightarrow> OwnData v
      | None \<Rightarrow>
          (case p of
             ObjectPrototype \<Rightarrow> Method ''[object Object]''
           | CustomToString s \<Rightarrow> Method s
           | NoToString \<Rightarrow> Absent))"
| "toString_of JUndefined = Absent"
| "toString_of JNull = Absent"

text \<open>
  ToString on a value, as string concatenation and the \<^verbatim>\<open>Error\<close> constructor apply it.
  An object is converted by its \<^verbatim>\<open>toString\<close> method; without a callable one the
  conversion falls back on \<^verbatim>\<open>valueOf\<close>, which gives no primitive, and is a TypeError.
\<close>

fun js_toString :: "jsval \<Rightarrow> js_exn + string" where
  "js_toString JUndefined = Inr ''undefined''"
| "js_toString JNull = Inr ''null''"
| "js_toString v =
     (case toString_of v of
        Method s \<Rightarrow> Inr s
      | OwnData x \<Rightarrow> Inl TypeError
      | Absent \<Rightarrow> Inl TypeError)"


section \<open>Id Generator: \<^verbatim>\<open>counter\<close>\<close>

text \<open>
  The function object \<^verbatim>\<open>result\<close> with its \<^verbatim>\<open>count\<close> property and the radix captured
  by the closure. The count is a natural number: the JavaScript number is exact on the
  integers below \<open>2 ^ 53\<close>.
\<close>

record counter_obj =
  radix :: int
  count :: nat

text \<open>
  Line 171, one invocation
  \<^verbatim>\<open>(prefix = '', join = '.') => (prefix ? prefix + join : '') + (result.count++).toString(radix)\<close>:
  the result (or the RangeError of \<^verbatim>\<open>toString\<close>) and the updated object.
\<close>

definition invoke ::
  "counter_obj \<Rightarrow> string option \<Rightarrow> string option \<Rightarrow> (js_exn + string) \<times> counter_obj" where
  "invoke result prefix_arg join =
     (let p = (case prefix_arg of None \<Rightarrow> [] | Some s \<Rightarrow> s);
          j = (case join of None \<Rightarrow> ''.'' | Some j \<Rightarrow> j);
          lhs = (if p \<noteq> [] then p @ j else []);
          n = count result;
          result' = result\<lparr>count := n + 1\<rparr>
      in (case number_toString n (radix result) of
            Inl e \<Rightarrow> (Inl e, result')
          | Inr s \<Rightarrow> (Inr (lhs @ s), result')))"

text \<open>
  Generator instances live in a store, addressed by reference, so that sharing between
  instances can be stated. \<^verbatim>\<open>counter(radix = 10)\<close> allocates a fresh instance.
\<close>

type_synonym store = "counter_obj list"

definition counter :: "int option \<Rightarrow> store \<Rightarrow> nat \<times> store" where
  "counter radix_arg h =
     (length h, h @ [\<lparr>radix = (case radix_arg of None \<Rightarrow> 10 | Some r \<Rightarrow> r), count = 0\<rparr>])"

definition invoke_ref ::
  "nat \<Rightarrow> string option \<Rightarrow> string option \<Rightarrow> store \<Rightarrow> ((js_exn + string) \<times> store) option" where
  "invoke_ref r prefix_arg join h =
     (if r < length h
      then (case invoke (h ! r) prefix_arg join of (res, c') \<Rightarrow> Some (res, h[r := c']))
      else None)"

text \<open>Successive invocations of one instance, each with its own arguments.\<close>

fun invoke_all ::
  "counter_obj \<Rightarrow> (string option \<times> string option) list \<Rightarrow> (js_exn + string) list \<times> counter_obj" where
  "invoke_all c [] = ([], c)"
| "invoke_all c ((prefix_arg, join) # args) =
     (case invoke c prefix_arg join of
        (res, c') \<Rightarrow> (case invoke_all c' args of (rs, c'') \<Rightarrow> (res # rs, c'')))"

text \<open>
  The reader's default \<^verbatim>\<open>reqestIdGenerator\<close> of line 123, \<^verbatim>\<open>counter(16)\<close>, called with
  the socket id as prefix and no join; its state is the count. It is shown below to be an
  invocation of the counter with radix 16.
\<close>

definition default_idgen :: "nat idgen" where
  "default_idgen prefix_arg n =
     ((case prefix_arg of None \<Rightarrow> [] | Some s \<Rightarrow> if s \<noteq> [] then s @ ''.'' else []) @
      radix_digits 16 n, n + 1)"


section \<open>Error Codec\<close>

text \<open>
  Lines 28-34, \<^verbatim>\<open>new ErrorResponse(msg, details)\<close>; \<open>trace\<close> is the stack text the
  platform records at construction.
\<close>

definition ErrorResponse :: "string \<Rightarrow> jsval \<Rightarrow> string \<Rightarrow> error_instance" where
  "ErrorResponse msg details trace =
     ErrorInstance ErrorResponseClass
       ([(''message'', JStr msg), (''stack'', JStr trace)] @
        (if details \<noteq> JUndefined then [(''details'', details)] else []))"

text \<open>A thrown value: an instance of \<^verbatim>\<open>Error\<close>, or any other value.\<close>

datatype thrown = ThrownError error_instance | ThrownValue jsval

text \<open>
  Lines 155-166. The branch of line 163 reads \<^verbatim>\<open>e.toString\<close> when \<^verbatim>\<open>e\<close> is truthy and
  calls it when it is truthy in turn; calling a property that is not a function is a
  TypeError, which nothing in \<^verbatim>\<open>asMessageError\<close> catches.
\<close>

fun asMessageError :: "thrown \<Rightarrow> bool \<Rightarrow> js_exn + jsval" where
  "asMessageError (ThrownError (ErrorInstance cls own)) addStack =
     (let e = ErrorInstance cls own;
          response = [(''error'', error_prop e ''message''), (''type'', error_prop e ''name'')]
      in if cls = ErrorResponseClass
         then Inr (object (AList.update ''details'' (error_prop e ''details'') response))
         else if addStack then Inr (object (AList.update ''stack'' (error_prop e ''stack'') response))
         else Inr (object response))"
| "asMessageError (ThrownValue (JStr s)) addStack =
     Inr (object [(''error'', JStr s), (''type'', JStr ''string'')])"
| "asMessageError (ThrownValue e) addStack =
     (let unknown = object [(''error'', JStr ''unknown error''), (''type'', JStr ''unknown''),
                            (''details'', e)]
      in if truthy e then
           (case toString_of e of
              Method s \<Rightarrow> Inr (object [(''error'', JStr s), (''type'', JStr ''object''), (''details'', e)])
            | OwnData v \<Rightarrow> if truthy v then Inl TypeError else Inr unknown
            | Absent \<Rightarrow> Inr unknown)
         else Inr unknown)"

text \<open>
  Lines 36-43, \<^verbatim>\<open>new RemoteError({error, stack, ...rest})\<close> on the own properties of the
  message. \<^verbatim>\<open>super(error)\<close> sets \<^verbatim>\<open>message\<close> to the text of \<^verbatim>\<open>error\<close> unless it is
  undefined; \<^verbatim>\<open>this.name\<close> on line 40 is the inherited name, no own property of that name
  existing yet; \<^verbatim>\<open>Object.assign(this, rest)\<close> then sets every remaining property.
\<close>

definition RemoteError :: "(string \<times> jsval) list \<Rightarrow> js_exn + error_instance" where
  "RemoteError props =
     (let error = (case map_of props ''error'' of Some v \<Rightarrow> v | None \<Rightarrow> JUndefined);
          stack = (case map_of props ''stack'' of Some v \<Rightarrow> v | None \<Rightarrow> JUndefined);
          rest = filter (\<lambda>(k, v). k \<noteq> ''error'' \<and> k \<noteq> ''stack'') props
      in case (if error = JUndefined then Inr [] else
                 (case js_toString error of Inl x \<Rightarrow> Inl x | Inr s \<Rightarrow> Inr [(''message'', JStr s)])) of
           Inl x \<Rightarrow> Inl x
         | Inr own \<Rightarrow>
             (case (if truthy stack
                    then (case js_toString stack of
                            Inl x \<Rightarrow> Inl x
                          | Inr s \<Rightarrow> Inr (class_name RemoteErrorClass @ '': '' @ s))
                    else Inr []) of
                Inl x \<Rightarrow> Inl x
              | Inr st \<Rightarrow>
                  Inr (ErrorInstance RemoteErrorClass
                        (fold (\<lambda>(k, v). AList.update k v) rest
                           (AList.update ''stack'' (JStr st) own)))))"


section \<open>Caller: the \<^verbatim>\<open>call\<close> closure of \<^verbatim>\<open>requestService\<close>\<close>

fun own_props :: "jsval \<Rightarrow> (string \<times> jsval) list" where
  "own_props (JObj p props) = props"
| "own_props v = []"

text \<open>
  Lines 226-230, the callback applied to what \<^verbatim>\<open>reader.next()\<close> resolves with:
  \<^verbatim>\<open>if (done) return null; if (value.error) throw new RemoteError(value); return value.body\<close>.
\<close>

definition call_then :: "iter_result \<Rightarrow> jsval promise" where
  "call_then r =
     (case r of
        IterDone \<Rightarrow> Fulfilled JNull
      | IterValue v \<Rightarrow>
          (case get_prop v ''error'' of
             Inl x \<Rightarrow> Rejected (Native x)
           | Inr err \<Rightarrow>
               if truthy err
               then (case RemoteError (own_props v) of
                       Inl x \<Rightarrow> Rejected (Native x)
                     | Inr e \<Rightarrow> Rejected (Remote e))
               else (case get_prop v ''body'' of
                       Inl x \<Rightarrow> Rejected (Native x)
                     | Inr b \<Rightarrow> Fulfilled b)))"

text \<open>
  Lines 224-231: one \<^verbatim>\<open>call(body)\<close> writes the request and makes one \<^verbatim>\<open>next()\<close>
  request to the reader; what the call settles with is the callback applied to what the
  request settles with, and a request that is never settled leaves the call pending.
\<close>

definition call_outcome :: "iter_result promise \<Rightarrow> jsval promise" where
  "call_outcome settled =
     (case settled of Fulfilled r \<Rightarrow> call_then r | Rejected f \<Rightarrow> Rejected f)"


section \<open>Service: \<^verbatim>\<open>startService\<close>\<close>

text \<open>
  The options that bear on the service's identity and on what it registers; \<open>log\<close> is
  whether \<^verbatim>\<open>opts.log\<close> is set (to \<^verbatim>\<open>true\<close> or to a function).
\<close>

record ServiceOpts =
  on :: string
  serviceId :: "string option"
  log :: bool
  traceErrors :: "bool option"

text \<open>The first argument, \<^verbatim>\<open>options: string | ServiceOpts\<close>.\<close>

datatype options = OnString string | Opts ServiceOpts

text \<open>
  What is registered on an event emitter: the logging callbacks of lines 132-133, the
  request loop of lines 141-148, and \<^verbatim>\<open>service.stop\<close> bound to the service.
\<close>

datatype listener = LogStarted | LogStopped | HandleRequests | ServiceStop

text \<open>
  The service object: its \<^verbatim>\<open>id\<close> property (\<open>None\<close> while never assigned, so undefined) and the
  listeners registered on it with \<^verbatim>\<open>service.on\<close>.
\<close>

record Service =
  id_prop :: "string option"
  listeners :: "(string \<times> listener) list"

text \<open>The listeners registered on the global \<^verbatim>\<open>process\<close> object, by event name.\<close>

type_synonym process = "(string \<times> listener) list"

text \<open>
  Lines 103-153, the service's identity and the registrations. \<open>hostname\<close> is
  \<^verbatim>\<open>require('os').hostname()\<close> and \<open>now\<close> is \<^verbatim>\<open>Date.now()\<close>; \<open>handler\<close> says whether
  a handler was passed.
\<close>

definition startService ::
  "options \<Rightarrow> bool \<Rightarrow> string \<Rightarrow> nat \<Rightarrow> process \<Rightarrow> Service \<times> process" where
  "startService options_arg handler hostname now proc =
     (let opts = (case options_arg of
                    OnString s \<Rightarrow> \<lparr>on = s, serviceId = None, log = False, traceErrors = None\<rparr>
                  | Opts os \<Rightarrow> os);
          service_id = (if \<not> (case serviceId opts of None \<Rightarrow> False | Some s \<Rightarrow> s \<noteq> [])
                        then Some (hostname @ ''.'' @ radix_digits 16 now)
                        else None);
          on_service = (if log opts then [(''start'', LogStarted), (''stop'', LogStopped)] else []) @
                       (if handler then [(''connect'', HandleRequests)] else []);
          proc' = proc @ [(''SIGINT'', ServiceStop)]
      in (\<lparr>id_prop = service_id, listeners = on_service\<rparr>, proc'))"


section \<open>The reader as one pass over the characters\<close>

text \<open>
  A reference reading of the stream, used to reason about the two loops: the characters are
  taken one by one, \<open>acc\<close> is the text since the last newline, and each newline closes a
  frame. The loops of \<open>messagesReader\<close> are shown below to compute the same thing.
\<close>

fun scan ::
  "parser \<Rightarrow> 'g idgen option \<Rightarrow> string option \<Rightarrow> string \<Rightarrow> string \<Rightarrow> 'g
   \<Rightarrow> jsval list \<times> js_exn option \<times> string \<times> 'g" where
  "scan parse ctx sid acc [] g = ([], None, acc, g)"
| "scan parse ctx sid acc (c # cs) g =
     (if c = newline then
        (case tag_message ctx sid (frame_message parse acc) g of
           (Inl e, g') \<Rightarrow> ([], Some e, [], g')
         | (Inr message, g') \<Rightarrow>
             (case scan parse ctx sid [] cs g' of
                (ms, r, b, g'') \<Rightarrow> (message # ms, r, b, g'')))
      else scan parse ctx sid (acc @ [c]) cs g)"

definition joined ::
  "jsval list \<times> js_exn option \<times> string list \<times> 'g \<Rightarrow> jsval list \<times> js_exn option \<times> string \<times> 'g" where
  "joined t = (case t of (ms, r, b, g) \<Rightarrow> (ms, r, concat b, g))"

definition finish ::
  "jsval list \<times> js_exn option \<times> string \<times> 'g \<Rightarrow> jsval list \<times> ending \<times> 'g" where
  "finish t =
     (case t of (ms, r, b, g) \<Rightarrow> (ms, (case r of None \<Rightarrow> Ended | Some e \<Rightarrow> Raised e), g))"


section \<open>Properties of the Frame Reader\<close>

lemma split_nl_nonempty: "split_nl s \<noteq> []"
  by (induction s) (auto split: list.splits)

text \<open>Only the text held in the buffer matters, not how it is cut into pieces.\<close>

lemma for_chunks_concat:
  "concat buffer @ x = concat buffer' @ x' \<Longrightarrow>
   joined (for_chunks parse ctx sid buffer (x # xs) g) =
   joined (for_chunks parse ctx sid buffer' (x' # xs) g)"
  by (cases xs) (auto simp: joined_def)

lemma for_chunks_scan:
  "joined (for_chunks parse ctx sid buffer (split_nl s) g) = scan parse ctx sid (concat buffer) s g"
proof (induction s arbitrary: buffer g)
  case Nil
  then show ?case by (simp add: joined_def)
next
  case (Cons c cs)
  obtain p ps where sp: "split_nl cs = p # ps"
    using split_nl_nonempty[of cs] by (cases "split_nl cs") auto
  show ?case
  proof (cases "c = newline")
    case True
    obtain res g' where tm: "tag_message ctx sid (frame_message parse (concat buffer)) g = (res, g')"
      by (cases "tag_message ctx sid (frame_message parse (concat buffer)) g") auto
    show ?thesis
    proof (cases res)
      case (Inl e)
      then show ?thesis using True sp tm by (simp add: joined_def)
    next
      case (Inr m)
      obtain ms r b g'' where fc: "for_chunks parse ctx sid [] (p # ps) g' = (ms, r, b, g'')"
        by (cases "for_chunks parse ctx sid [] (p # ps) g'") auto
      then have "scan parse ctx sid [] cs g' = (ms, r, concat b, g'')"
        using Cons.IH[of "[]" g'] sp by (simp add: joined_def)
      then show ?thesis using True sp tm Inr fc by (simp add: joined_def)
    qed
  next
    case False
    have "joined (for_chunks parse ctx sid buffer ((c # p) # ps) g)
        = joined (for_chunks parse ctx sid (buffer @ [[c]]) (p # ps) g)"
      by (rule for_chunks_concat) simp
    also have "\<dots> = scan parse ctx sid (concat buffer @ [c]) cs g"
      using Cons.IH[of "buffer @ [[c]]" g] sp by simp
    finally show ?thesis using False sp by simp
  qed
qed

lemma scan_append:
  "scan parse ctx sid acc (a @ b) g =
     (case scan parse ctx sid acc a g of
        (ms, Some e, acc', g') \<Rightarrow> (ms, Some e, acc', g')
      | (ms, None, acc', g') \<Rightarrow>
          (case scan parse ctx sid acc' b g' of
             (ms', r, acc'', g'') \<Rightarrow> (ms @ ms', r, acc'', g'')))"
  by (induction a arbitrary: acc g) (auto split: prod.splits sum.splits option.splits)

lemma read_loop_scan:
  "read_loop parse ctx sid buffer ds g = finish (scan parse ctx sid (concat buffer) (concat ds) g)"
proof (induction ds arbitrary: buffer g)
  case Nil
  then show ?case by (simp add: finish_def)
next
  case (Cons d ds)
  obtain ms r b g' where fc: "for_chunks parse ctx sid buffer (split_nl d) g = (ms, r, b, g')"
    by (cases "for_chunks parse ctx sid buffer (split_nl d) g") auto
  then have sc: "scan parse ctx sid (concat buffer) d g = (ms, r, concat b, g')"
    using for_chunks_scan[of parse ctx sid buffer d g] by (simp add: joined_def)
  show ?case
    using fc sc Cons.IH[of b g']
    by (cases r) (auto simp: scan_append finish_def split: prod.splits)
qed

text \<open>
  However the text that the reader hears is cut into data events, it yields the same
  messages, ends the same way and leaves the id generator in the same state as when the
  whole text is heard as one data event.
\<close>

lemma heard_events_invariant:
  "messagesReader parse ctx sid chunks g = messagesReader parse ctx sid [concat chunks] g"
  by (simp add: messagesReader_def read_loop_scan)


subsection \<open>One frame at a time\<close>

lemma scan_no_newline:
  "newline \<notin> set tail \<Longrightarrow>
   scan parse ctx sid acc (tail @ x) g = scan parse ctx sid (acc @ tail) x g"
  by (induction tail arbitrary: acc) auto

text \<open>
  The reader in any state, its buffer holding the pieces received since the last newline:
  when the next data event completes a frame, the frame's message is tagged and yielded (or
  the tagging raises), and reading goes on with an empty buffer.
\<close>

lemma read_loop_frame:
  assumes "newline \<notin> set tail"
  shows "read_loop parse ctx sid buffer ((tail @ newline # rest) # ds) g =
     (case tag_message ctx sid (frame_message parse (concat buffer @ tail)) g of
        (Inl e, g') \<Rightarrow> ([], Raised e, g')
      | (Inr m, g') \<Rightarrow>
          (case read_loop parse ctx sid [] (rest # ds) g' of
             (ms, r, g'') \<Rightarrow> (m # ms, r, g'')))"
proof -
  have "scan parse ctx sid (concat buffer) (tail @ (newline # rest @ concat ds)) g
      = scan parse ctx sid (concat buffer @ tail) (newline # rest @ concat ds) g"
    using assms by (rule scan_no_newline)
  then show ?thesis
    by (simp add: read_loop_scan finish_def split: prod.splits sum.splits option.splits)
qed

lemma tag_message_object:
  "tag_message ctx sid (JObj p props) g =
     (case ctx of
        None \<Rightarrow> (Inr (JObj p props), g)
      | Some gen \<Rightarrow>
          (case gen sid g of
             (i, g') \<Rightarrow> (Inr (JObj p (AList.update ''id'' (JStr i) props)), g')))"
  by (simp add: tag_message_def split: option.splits)

lemma tag_message_falsy:
  "\<not> truthy m \<Longrightarrow> tag_message ctx sid m g = (Inr m, g)"
  by (simp add: tag_message_def split: option.splits)

lemma frame_message_failure:
  "raw \<noteq> [] \<Longrightarrow> parse raw = Inl (msg, nm) \<Longrightarrow>
   frame_message parse raw =
     object [(''error'', JStr msg), (''type'', JStr nm), (''invalidResponse'', JStr raw)]"
  by (simp add: frame_message_def)

lemma frame_message_object_cases:
  "raw = [] \<or> isl (parse raw) \<Longrightarrow> \<exists>p props. frame_message parse raw = JObj p props"
  by (cases "parse raw") (auto simp: frame_message_def object_def)

text \<open>
  C1 fails on the code at the empty frame. The empty text is not valid JSON (the parser
  rejects it), yet line 65 does not parse it: the reader yields the heartbeat
  \<^verbatim>\<open>{ body: null, emptyResponse: true }\<close>, which has no \<^verbatim>\<open>error\<close> field.
\<close>

theorem empty_frame_counterexample:
  "messagesReader (\<lambda>s. Inl (''Unexpected end of JSON input'', ''SyntaxError''))
       (None :: unit idgen option) None [[newline]] ()
     = ([object [(''body'', JNull), (''emptyResponse'', JBool True)]], Ended, ())
   \<and> get_prop (object [(''body'', JNull), (''emptyResponse'', JBool True)]) ''error'' = Inr JUndefined"
  by (simp add: messagesReader_def frame_message_def tag_message_def object_def)

text \<open>
  C1, amended. Let the reader be in any state and let the next data event complete a
  non-empty frame \<open>raw\<close> that the parser rejects with message \<open>msg\<close> and name \<open>nm\<close>.
  Then the reader does not raise: it yields the object with \<^verbatim>\<open>error\<close> \<open>msg\<close>,
  \<^verbatim>\<open>type\<close> \<open>nm\<close> and \<^verbatim>\<open>invalidResponse\<close> the exact text \<open>raw\<close> (and the next id
  when an id generator is bound), and the sequence continues with whatever the rest of the
  stream gives.
\<close>

theorem malformed_frame_yields_error:
  assumes "raw \<noteq> []" and "parse raw = Inl (msg, nm)"
    and "newline \<notin> set tail" and "concat buffer @ tail = raw"
  shows "read_loop parse ctx sid buffer ((tail @ newline # rest) # ds) g =
     (case ctx of
        None \<Rightarrow>
          (case read_loop parse ctx sid [] (rest # ds) g of
             (ms, r, g'') \<Rightarrow>
               (object [(''error'', JStr msg), (''type'', JStr nm), (''invalidResponse'', JStr raw)] # ms,
                r, g''))
      | Some gen \<Rightarrow>
          (case gen sid g of
             (i, g') \<Rightarrow>
               (case read_loop parse ctx sid [] (rest # ds) g' of
                  (ms, r, g'') \<Rightarrow>
                    (object [(''error'', JStr msg), (''type'', JStr nm), (''invalidResponse'', JStr raw),
                             (''id'', JStr i)] # ms,
                     r, g''))))"
proof -
  have fm: "frame_message parse (concat buffer @ tail) =
      JObj ObjectPrototype [(''error'', JStr msg), (''type'', JStr nm), (''invalidResponse'', JStr raw)]"
    using assms(1,2,4) by (simp add: frame_message_failure object_def)
  show ?thesis
    unfolding read_loop_frame[OF assms(3)] fm tag_message_object object_def
    by (simp del: read_loop.simps split: option.splits prod.splits)
qed

theorem malformed_frame_yields_error_witness:
  "read_loop (\<lambda>s. if s = ''{}'' then Inr (object []) else Inl (''Unexpected token o'', ''SyntaxError''))
     (Some default_idgen) (Some ''c'') [''{oo''] [''ps'' @ newline # ''{}'' @ [newline]] 10
   = ([object [(''error'', JStr ''Unexpected token o''), (''type'', JStr ''SyntaxError''),
               (''invalidResponse'', JStr ''{oops''), (''id'', JStr ''c.a'')],
       object [(''id'', JStr ''c.b'')]],
      Ended, 12)"
  using malformed_frame_yields_error[of "''{oops''"
      "\<lambda>s. if s = ''{}'' then Inr (object []) else Inl (''Unexpected token o'', ''SyntaxError'')"
      "''Unexpected token o''" "''SyntaxError''" "''ps''" "[''{oo'']"
      "Some default_idgen" "Some ''c''" "''{}'' @ [newline]" "[]" 10]
  by (simp add: newline_def default_idgen_def radix_digits.simps digit_char_def
        frame_message_def tag_message_def object_def)

text \<open>
  C9 fails on the code at the frame \<^verbatim>\<open>null\<close>, which is valid JSON: the guard
  \<^verbatim>\<open>message &&\<close> of line 69 skips a falsy message, so the bound reader yields
  \<^verbatim>\<open>null\<close> as it is, with no id, and the generator is not asked for one.
\<close>

theorem null_frame_counterexample:
  "messagesReader (\<lambda>s. if s = ''null'' then Inr JNull else Inl (''Unexpected token'', ''SyntaxError''))
     (Some default_idgen) (Some ''c'') [''null'' @ [newline]] 0
   = ([JNull], Ended, 0)"
  by (simp add: messagesReader_def newline_def frame_message_def tag_message_def)

text \<open>
  C9, amended. Let the reader be bound to a generator whose next id is \<open>i\<close>, and let the
  next data event complete a frame with message \<open>m\<close>. If \<open>m\<close> is an object, the reader
  yields it with its \<^verbatim>\<open>id\<close> property set to \<open>i\<close> (overwritten when present) and goes on
  with the generator advanced; the heartbeat of an empty frame and the Error variant of a
  rejected frame are objects. If \<open>m\<close> is falsy (\<^verbatim>\<open>null\<close>, \<^verbatim>\<open>false\<close>, \<^verbatim>\<open>0\<close>,
  \<^verbatim>\<open>""\<close>), the reader yields it unchanged and goes on with the generator as it was.
\<close>

theorem bound_reader_tags_objects:
  assumes "newline \<notin> set tail" and "gen sid g = (i, g')"
    and "m = frame_message parse (concat buffer @ tail)"
  shows "(\<forall>p props. m = JObj p props \<longrightarrow>
            read_loop parse (Some gen) sid buffer ((tail @ newline # rest) # ds) g =
              (case read_loop parse (Some gen) sid [] (rest # ds) g' of
                 (ms, r, g'') \<Rightarrow> (JObj p (AList.update ''id'' (JStr i) props) # ms, r, g''))
            \<and> get_prop (JObj p (AList.update ''id'' (JStr i) props)) ''id'' = Inr (JStr i))
       \<and> (concat buffer @ tail = [] \<or> isl (parse (concat buffer @ tail)) \<longrightarrow>
            (\<exists>p props. m = JObj p props))
       \<and> (\<not> truthy m \<longrightarrow>
            read_loop parse (Some gen) sid buffer ((tail @ newline # rest) # ds) g =
              (case read_loop parse (Some gen) sid [] (rest # ds) g of
                 (ms, r, g'') \<Rightarrow> (m # ms, r, g'')))"
proof (intro conjI allI impI)
  fix p props assume "m = JObj p props"
  then have fm: "frame_message parse (concat buffer @ tail) = JObj p props"
    using assms(3) by simp
  show "read_loop parse (Some gen) sid buffer ((tail @ newline # rest) # ds) g =
          (case read_loop parse (Some gen) sid [] (rest # ds) g' of
             (ms, r, g'') \<Rightarrow> (JObj p (AList.update ''id'' (JStr i) props) # ms, r, g''))"
    unfolding read_loop_frame[OF assms(1)] fm tag_message_object
    using assms(2) by (simp del: read_loop.simps)
  show "get_prop (JObj p (AList.update ''id'' (JStr i) props)) ''id'' = Inr (JStr i)"
    by (simp add: update_conv')
next
  assume "concat buffer @ tail = [] \<or> isl (parse (concat buffer @ tail))"
  then show "\<exists>p props. m = JObj p props"
    unfolding assms(3) by (rule frame_message_object_cases)
next
  assume "\<not> truthy m"
  then have "tag_message (Some gen) sid (frame_message parse (concat buffer @ tail)) g = (Inr m, g)"
    using assms(3) by (simp add: tag_message_falsy)
  then show "read_loop parse (Some gen) sid buffer ((tail @ newline # rest) # ds) g =
          (case read_loop parse (Some gen) sid [] (rest # ds) g of
             (ms, r, g'') \<Rightarrow> (m # ms, r, g''))"
    unfolding read_loop_frame[OF assms(1)] by (simp del: read_loop.simps)
qed

theorem bound_reader_tags_objects_witness:
  "read_loop (\<lambda>s. if s = ''{}'' then Inr (object []) else Inl (''Unexpected token o'', ''SyntaxError''))
     (Some default_idgen) (Some ''c'') [''{''] [''}'' @ newline # newline # ''x'' @ [newline]] 0
   = ([object [(''id'', JStr ''c.0'')],
       object [(''body'', JNull), (''emptyResponse'', JBool True), (''id'', JStr ''c.1'')],
       object [(''error'', JStr ''Unexpected token o''), (''type'', JStr ''SyntaxError''),
               (''invalidResponse'', JStr ''x''), (''id'', JStr ''c.2'')]],
      Ended, 3)
   \<and> read_loop (\<lambda>s. if s = ''0'' then Inr (JNum ''0'') else Inr (object []))
     (Some default_idgen) (Some ''c'') [] [''0'' @ newline # ''{}'' @ [newline]] 0
   = ([JNum ''0'', object [(''id'', JStr ''c.0'')]], Ended, 1)"
  using bound_reader_tags_objects[of "''}''" default_idgen "Some ''c''" 0 "''c.0''" 1 "object []"
      "\<lambda>s. if s = ''{}'' then Inr (object []) else Inl (''Unexpected token o'', ''SyntaxError'')"
      "[''{'']" "newline # ''x'' @ [newline]" "[]"]
    bound_reader_tags_objects[of "''0''" default_idgen "Some ''c''" 0 "''c.0''" 1 "JNum ''0''"
      "\<lambda>s. if s = ''0'' then Inr (JNum ''0'') else Inr (object [])"
      "[]" "''{}'' @ [newline]" "[]"]
  by (simp add: newline_def default_idgen_def radix_digits.simps digit_char_def
        frame_message_def tag_message_def object_def)


subsection \<open>The generator object: which events are heard\<close>

text \<open>
  With requests waiting in the queue the body never stops at a \<^verbatim>\<open>yield\<close>: one data event
  settles a request for each of its messages and leaves the generator awaiting.
\<close>

lemma run_body_ahead:
  assumes "for_chunks parse ctx sid buffer pieces g = (ms, r, b, g')" and "length ms < w"
  shows "run_body parse ctx sid buffer pieces g w =
     (case r of
        None \<Rightarrow>
          (map (\<lambda>m. Fulfilled (IterValue m)) ms,
           \<lparr>gen_control = Awaiting, gen_buffer = b, gen_ids = g', gen_waiting = w - length ms\<rparr>)
      | Some e \<Rightarrow>
          (map (\<lambda>m. Fulfilled (IterValue m)) ms @
             Rejected (Native e) # replicate (w - length ms - 1) (Fulfilled IterDone),
           \<lparr>gen_control = Completed, gen_buffer = [], gen_ids = g', gen_waiting = 0\<rparr>))"
  using assms
proof (induction parse ctx sid buffer pieces g arbitrary: ms r b g' w rule: for_chunks.induct)
  case (1 parse ctx sid buffer g)
  then show ?case by simp
next
  case (2 parse ctx sid buffer c g)
  then show ?case by simp
next
  case (3 parse ctx sid buffer c c' cs g)
  obtain res g1 where tm: "tag_message ctx sid (frame_message parse (concat (buffer @ [c]))) g = (res, g1)"
    by (cases "tag_message ctx sid (frame_message parse (concat (buffer @ [c]))) g") auto
  show ?case
  proof (cases res)
    case (Inl e)
    then show ?thesis using 3 tm by (auto simp: Let_def)
  next
    case (Inr m)
    obtain ms1 r1 b1 g2 where fc: "for_chunks parse ctx sid [] (c' # cs) g1 = (ms1, r1, b1, g2)"
      by (cases "for_chunks parse ctx sid [] (c' # cs) g1") auto
    have ms: "ms = m # ms1" "r = r1" "b = b1" "g' = g2"
      using "3.prems"(1) tm Inr fc by (auto simp: Let_def)
    then have w: "length ms1 < w - 1" "\<not> w \<le> 1" using "3.prems"(2) by auto
    have ih: "run_body parse ctx sid [] (c' # cs) g1 (w - 1) =
     (case r1 of
        None \<Rightarrow>
          (map (\<lambda>m. Fulfilled (IterValue m)) ms1,
           \<lparr>gen_control = Awaiting, gen_buffer = b1, gen_ids = g2, gen_waiting = w - 1 - length ms1\<rparr>)
      | Some e \<Rightarrow>
          (map (\<lambda>m. Fulfilled (IterValue m)) ms1 @
             Rejected (Native e) # replicate (w - 1 - length ms1 - 1) (Fulfilled IterDone),
           \<lparr>gen_control = Completed, gen_buffer = [], gen_ids = g2, gen_waiting = 0\<rparr>))"
      using "3.IH" tm Inr fc w
      by (cases r1) simp_all
    show ?thesis
      using tm Inr w ms ih by (cases r1) (simp_all add: Let_def del: for_chunks.simps run_body.simps(3)
         add: run_body.simps(3)[of parse ctx sid buffer c c' cs g w])
  qed
qed

lemma reader_run_append:
  "reader_run parse ctx sid (xs @ ys) st =
     (case reader_run parse ctx sid xs st of
        (ss, st') \<Rightarrow> (case reader_run parse ctx sid ys st' of (ss', st'') \<Rightarrow> (ss @ ss', st'')))"
  by (induction xs arbitrary: st) (auto split: prod.splits)

lemma completed_hears_nothing:
  "gen_control st = Completed \<Longrightarrow> reader_run parse ctx sid (map Emit evs) st = ([], st)"
proof (induction evs)
  case Nil
  then show ?case by simp
next
  case (Cons ev evs)
  then show ?case by (cases ev) simp_all
qed

lemma queued_requests:
  "reader_run parse ctx sid (replicate (Suc n) Next) (new_reader g) =
     ([], \<lparr>gen_control = Awaiting, gen_buffer = [], gen_ids = g, gen_waiting = Suc n\<rparr>)"
proof (induction n)
  case 0
  then show ?case by (simp add: new_reader_def)
next
  case (Suc n)
  have "replicate (Suc (Suc n)) Next = replicate (Suc n) Next @ [Next]"
    by (simp add: replicate_append_same)
  then show ?case using Suc by (simp add: reader_run_append del: replicate.simps)
qed

lemma awaiting_stays_pending:
  "gen_control st = Awaiting \<Longrightarrow>
   reader_run parse ctx sid (replicate k Next) st = ([], st\<lparr>gen_waiting := gen_waiting st + k\<rparr>)"
  by (induction k arbitrary: st) simp_all

lemma emits_ahead:
  assumes "read_loop parse ctx sid buffer ds g = (ms, e, g')" and "length ms < w"
  shows "fst (reader_run parse ctx sid (map (\<lambda>d. Emit (Data d)) ds @ [Emit End])
            \<lparr>gen_control = Awaiting, gen_buffer = buffer, gen_ids = g, gen_waiting = w\<rparr>) =
     map (\<lambda>m. Fulfilled (IterValue m)) ms @
     (case e of
        Ended \<Rightarrow> replicate (w - length ms) (Fulfilled IterDone)
      | Raised x \<Rightarrow> Rejected (Native x) # replicate (w - length ms - 1) (Fulfilled IterDone))"
  using assms
proof (induction ds arbitrary: buffer g w ms)
  case Nil
  then show ?case by simp
next
  case (Cons d ds)
  obtain ms1 r b g1 where fc: "for_chunks parse ctx sid buffer (split_nl d) g = (ms1, r, b, g1)"
    by (cases "for_chunks parse ctx sid buffer (split_nl d) g") auto
  show ?case
  proof (cases r)
    case (Some x)
    then have res: "ms = ms1" "e = Raised x" using Cons.prems(1) fc by auto
    have rb: "run_body parse ctx sid buffer (split_nl d) g w =
        (map (\<lambda>m. Fulfilled (IterValue m)) ms1 @
           Rejected (Native x) # replicate (w - length ms1 - 1) (Fulfilled IterDone),
         \<lparr>gen_control = Completed, gen_buffer = [], gen_ids = g1, gen_waiting = 0\<rparr>)"
      using run_body_ahead[OF fc, of w] Cons.prems(2) res Some by simp
    have "reader_run parse ctx sid (map Emit (map Data ds @ [End]))
            \<lparr>gen_control = Completed, gen_buffer = [], gen_ids = g1, gen_waiting = 0\<rparr>
          = ([], \<lparr>gen_control = Completed, gen_buffer = [], gen_ids = g1, gen_waiting = 0\<rparr>)"
      by (rule completed_hears_nothing) simp
    then show ?thesis using rb res by (simp add: comp_def)
  next
    case None
    obtain ms2 e2 g2 where rl: "read_loop parse ctx sid b ds g1 = (ms2, e2, g2)"
      by (cases "read_loop parse ctx sid b ds g1") auto
    then have res: "ms = ms1 @ ms2" "e = e2" "g' = g2" using Cons.prems(1) fc None by auto
    have rl': "read_loop parse ctx sid b ds g1 = (ms2, e, g')" using rl res by simp
    have rb: "run_body parse ctx sid buffer (split_nl d) g w =
        (map (\<lambda>m. Fulfilled (IterValue m)) ms1,
         \<lparr>gen_control = Awaiting, gen_buffer = b, gen_ids = g1, gen_waiting = w - length ms1\<rparr>)"
      using run_body_ahead[OF fc, of w] Cons.prems(2) res None by simp
    have "length ms2 < w - length ms1" using Cons.prems(2) res by simp
    then have ih: "fst (reader_run parse ctx sid (map (\<lambda>d. Emit (Data d)) ds @ [Emit End])
            \<lparr>gen_control = Awaiting, gen_buffer = b, gen_ids = g1, gen_waiting = w - length ms1\<rparr>) =
       map (\<lambda>m. Fulfilled (IterValue m)) ms2 @
       (case e of
          Ended \<Rightarrow> replicate (w - length ms1 - length ms2) (Fulfilled IterDone)
        | Raised x \<Rightarrow> Rejected (Native x) # replicate (w - length ms1 - length ms2 - 1) (Fulfilled IterDone))"
      using Cons.IH[OF rl'] by simp
    obtain ss st where rr: "reader_run parse ctx sid (map (\<lambda>d. Emit (Data d)) ds @ [Emit End])
            \<lparr>gen_control = Awaiting, gen_buffer = b, gen_ids = g1, gen_waiting = w - length ms1\<rparr>
          = (ss, st)"
      by (cases "reader_run parse ctx sid (map (\<lambda>d. Emit (Data d)) ds @ [Emit End])
            \<lparr>gen_control = Awaiting, gen_buffer = b, gen_ids = g1, gen_waiting = w - length ms1\<rparr>")
    have ss: "ss = map (\<lambda>m. Fulfilled (IterValue m)) ms2 @
       (case e of
          Ended \<Rightarrow> replicate (w - length ms1 - length ms2) (Fulfilled IterDone)
        | Raised x \<Rightarrow> Rejected (Native x) # replicate (w - length ms1 - length ms2 - 1) (Fulfilled IterDone))"
      using ih rr by simp
    show ?thesis
      using rb rr res unfolding ss by (cases e2) simp_all
  qed
qed

text \<open>
  A consumer that is never behind - it has more requests waiting than the stream has
  messages - makes the generator hear every event, and the requests are settled with the
  messages of \<open>messagesReader\<close>, in order, then with the end or the exception.
\<close>

lemma consumer_ahead:
  assumes "messagesReader parse ctx sid ds g = (ms, e, g')" and "length ms < n"
  shows "fst (reader_run parse ctx sid (replicate n Next @ map (\<lambda>d. Emit (Data d)) ds @ [Emit End])
            (new_reader g)) =
     map (\<lambda>m. Fulfilled (IterValue m)) ms @
     (case e of
        Ended \<Rightarrow> replicate (n - length ms) (Fulfilled IterDone)
      | Raised x \<Rightarrow> Rejected (Native x) # replicate (n - length ms - 1) (Fulfilled IterDone))"
proof -
  obtain k where n: "n = Suc k" using assms(2) by (cases n) auto
  have rl: "read_loop parse ctx sid [] ds g = (ms, e, g')"
    using assms(1) by (simp add: messagesReader_def)
  show ?thesis
    unfolding n reader_run_append[of parse ctx sid "replicate (Suc k) Next"] queued_requests
    using emits_ahead[OF rl, of "Suc k"] assms(2) n by (simp split: prod.splits)
qed

text \<open>For such a consumer the cut of the stream into data events does not matter.\<close>

lemma consumer_ahead_invariant:
  assumes "length (fst (messagesReader parse ctx sid chunks g)) < n"
  shows "fst (reader_run parse ctx sid
                (replicate n Next @ map (\<lambda>d. Emit (Data d)) chunks @ [Emit End]) (new_reader g)) =
         fst (reader_run parse ctx sid
                (replicate n Next @ map (\<lambda>d. Emit (Data d)) [concat chunks] @ [Emit End])
                (new_reader g))"
proof -
  obtain ms e g' where mr: "messagesReader parse ctx sid chunks g = (ms, e, g')"
    by (cases "messagesReader parse ctx sid chunks g") auto
  then have mr': "messagesReader parse ctx sid [concat chunks] g = (ms, e, g')"
    using heard_events_invariant[of parse ctx sid chunks g] by simp
  have n: "length ms < n" using assms mr by simp
  show ?thesis
    unfolding consumer_ahead[OF mr n] consumer_ahead[OF mr' n] by (rule refl)
qed

text \<open>
  C2, at the failing input. The stream \<^verbatim>\<open>{}\n[]\n\<close> arrives while the consumer asks for
  one message, then for two more. Heard as one data event it gives both messages. Cut after
  the first newline, the second data event is emitted while the generator is suspended at the
  \<^verbatim>\<open>yield\<close> of line 71, where no listener of a pending race is attached: it is lost, and
  the reader gives the first message only.
\<close>

theorem chunk_lost_at_yield:
  "fst (reader_run
         (\<lambda>s. if s = ''{}'' then Inr (object [])
               else if s = ''[]'' then Inr (JObj (CustomToString []) [])
               else Inl (''Unexpected token'', ''SyntaxError''))
         (None :: unit idgen option) None
         [Next, Emit (Data (''{}'' @ [newline])), Emit (Data (''[]'' @ [newline])), Next, Next, Emit End]
         (new_reader ()))
     = [Fulfilled (IterValue (object [])), Fulfilled IterDone, Fulfilled IterDone]
   \<and> fst (reader_run
         (\<lambda>s. if s = ''{}'' then Inr (object [])
               else if s = ''[]'' then Inr (JObj (CustomToString []) [])
               else Inl (''Unexpected token'', ''SyntaxError''))
         (None :: unit idgen option) None
         [Next, Emit (Data (''{}'' @ [newline] @ ''[]'' @ [newline])), Next, Next, Emit End]
         (new_reader ()))
     = [Fulfilled (IterValue (object [])), Fulfilled (IterValue (JObj (CustomToString []) [])),
        Fulfilled IterDone]"
  by (simp add: new_reader_def newline_def frame_message_def tag_message_def object_def)


section \<open>Properties of the Caller\<close>

text \<open>
  When the generator has heard the end of the stream, while awaiting, it is completed, and
  every call made then or waiting then resolves with \<^verbatim>\<open>null\<close>.
\<close>

lemma completed_call_resolves_null:
  "gen_control st = Completed \<Longrightarrow>
   map call_outcome (fst (reader_step parse ctx sid Next st)) = [Fulfilled JNull]"
  by (simp add: call_outcome_def call_then_def)

lemma heard_end_resolves_null:
  "gen_control st = Awaiting \<Longrightarrow>
   map call_outcome (fst (reader_step parse ctx sid (Emit End) st)) =
     replicate (gen_waiting st) (Fulfilled JNull)"
  by (simp add: call_outcome_def call_then_def)

text \<open>
  C10, at the failing input. The client makes a call, the response arrives and the call
  resolves; the peer then ends the stream, before the next call. At that moment the generator
  is suspended at the \<^verbatim>\<open>yield\<close> of line 71 and the \<^verbatim>\<open>'end'\<close> event finds no listener
  of a pending race. The second call resumes the generator, which listens anew on lines 54-57
  for events that no longer come: its request is never settled, whatever number of further
  requests follows, and the call stays pending instead of resolving with \<^verbatim>\<open>null\<close>.
\<close>

theorem end_between_calls_stalls:
  "reader_run
       (\<lambda>s. if s = ''{}'' then Inr (object [(''body'', JStr ''Hello'')])
             else Inl (''Unexpected token'', ''SyntaxError''))
       (None :: unit idgen option) None
       [Next, Emit (Data (''{}'' @ [newline])), Emit End, Next] (new_reader ())
     = ([Fulfilled (IterValue (object [(''body'', JStr ''Hello'')]))],
        \<lparr>gen_control = Awaiting, gen_buffer = [[]], gen_ids = (), gen_waiting = 1\<rparr>)
   \<and> call_outcome (Fulfilled (IterValue (object [(''body'', JStr ''Hello'')])))
     = Fulfilled (JStr ''Hello'')
   \<and> (\<forall>k. fst (reader_run
       (\<lambda>s. if s = ''{}'' then Inr (object [(''body'', JStr ''Hello'')])
             else Inl (''Unexpected token'', ''SyntaxError''))
       (None :: unit idgen option) None
       ([Next, Emit (Data (''{}'' @ [newline])), Emit End, Next] @ replicate k Next) (new_reader ()))
     = [Fulfilled (IterValue (object [(''body'', JStr ''Hello'')]))])"
proof -
  let ?P = "\<lambda>s. if s = ''{}'' then Inr (object [(''body'', JStr ''Hello'')])
             else Inl (''Unexpected token'', ''SyntaxError'')"
  have run: "reader_run ?P (None :: unit idgen option) None
       [Next, Emit (Data (''{}'' @ [newline])), Emit End, Next] (new_reader ())
     = ([Fulfilled (IterValue (object [(''body'', JStr ''Hello'')]))],
        \<lparr>gen_control = Awaiting, gen_buffer = [[]], gen_ids = (), gen_waiting = 1\<rparr>)"
    by (simp add: new_reader_def newline_def frame_message_def tag_message_def object_def)
  have more: "fst (reader_run ?P (None :: unit idgen option) None
       ([Next, Emit (Data (''{}'' @ [newline])), Emit End, Next] @ replicate k Next) (new_reader ()))
     = [Fulfilled (IterValue (object [(''body'', JStr ''Hello'')]))]" for k
    unfolding reader_run_append[of ?P None None "[Next, Emit (Data (''{}'' @ [newline])), Emit End, Next]"]
      run
    by (simp add: awaiting_stays_pending)
  have out: "call_outcome (Fulfilled (IterValue (object [(''body'', JStr ''Hello'')])))
     = Fulfilled (JStr ''Hello'')"
    by (simp add: call_outcome_def call_then_def object_def)
  show ?thesis using run more out by blast
qed

text \<open>
  C4, at the failing input. A handler that throws \<^verbatim>\<open>new Error()\<close> is encoded as the
  Error variant \<^verbatim>\<open>{ error: "", type: "Error" }\<close>; on the client the test
  \<^verbatim>\<open>if (value.error)\<close> of line 228 takes the empty string for false, and the call
  resolves with \<^verbatim>\<open>value.body\<close>, which is undefined, instead of raising.
\<close>

theorem empty_error_resolves:
  "asMessageError (ThrownError (ErrorInstance (NativeError ''Error'') [(''stack'', JStr ''Error at handler'')])) False
     = Inr (object [(''error'', JStr []), (''type'', JStr ''Error'')])
   \<and> call_then (IterValue (object [(''id'', JStr ''c.0''), (''error'', JStr []), (''type'', JStr ''Error'')]))
     = Fulfilled JUndefined"
  by (simp add: call_then_def object_def)

text \<open>The two cases the claim describes, for a message without \<^verbatim>\<open>error\<close> and for one
  whose \<^verbatim>\<open>error\<close> is a non-empty string.\<close>

lemma call_then_ok:
  "map_of props ''error'' = None \<Longrightarrow>
   call_then (IterValue (JObj p props)) =
     Fulfilled (case map_of props ''body'' of Some b \<Rightarrow> b | None \<Rightarrow> JUndefined)"
  by (simp add: call_then_def)

lemma call_then_error:
  "map_of props ''error'' = Some (JStr e) \<Longrightarrow> e \<noteq> [] \<Longrightarrow>
   call_then (IterValue (JObj p props)) =
     (case RemoteError props of Inl x \<Rightarrow> Rejected (Native x) | Inr r \<Rightarrow> Rejected (Remote r))"
  by (simp add: call_then_def)


section \<open>Properties of the Error Codec\<close>

text \<open>
  C3 fails on the code for thrown numbers. The number 42 is not an object, and the table
  sends what is neither a failure object, a string nor an object to the last row; the code
  puts it in the object row, because line 163 tests \<^verbatim>\<open>e && e.toString\<close> and a number has
  that method. Nor can numbers be read into the object row: the number 0 has the same
  method, and the code puts it in the last row, since it is falsy.
\<close>

theorem thrown_number_counterexample:
  "asMessageError (ThrownValue (JNum ''42'')) False
     = Inr (object [(''error'', JStr ''42''), (''type'', JStr ''object''), (''details'', JNum ''42'')])
   \<and> asMessageError (ThrownValue (JNum ''0'')) False
     = Inr (object [(''error'', JStr ''unknown error''), (''type'', JStr ''unknown''),
                    (''details'', JNum ''0'')])"
  by simp

text \<open>
  C3, amended. An instance of \<^verbatim>\<open>Error\<close> maps to its message and name, with its stack
  when the trace flag is set, unless it is an \<^verbatim>\<open>ErrorResponse\<close>, which maps to its message,
  name and details, without a stack. A string maps to itself with type \<^verbatim>\<open>string\<close>. Any
  other value that is truthy and whose \<^verbatim>\<open>toString\<close> is a method (an object that inherits
  one, and also \<^verbatim>\<open>true\<close> and the numbers other than 0 and NaN) maps to the text the method
  returns, type \<^verbatim>\<open>object\<close> and the value as details. A value that is falsy, or has no
  \<^verbatim>\<open>toString\<close>, or has a falsy own property of that name, maps to \<^verbatim>\<open>unknown error\<close>,
  type \<^verbatim>\<open>unknown\<close> and the value as details. Only a truthy value with a truthy own
  \<^verbatim>\<open>toString\<close> that is no function gets no message: the encoder itself raises a TypeError.
  A stack is present only when the trace flag is set.
\<close>

theorem asMessageError_table:
  "(cls \<noteq> ErrorResponseClass \<longrightarrow>
      asMessageError (ThrownError (ErrorInstance cls own)) addStack =
        Inr (object ([(''error'', error_prop (ErrorInstance cls own) ''message''),
                      (''type'', error_prop (ErrorInstance cls own) ''name'')] @
                     (if addStack then [(''stack'', error_prop (ErrorInstance cls own) ''stack'')]
                      else []))))
   \<and> asMessageError (ThrownError (ErrorInstance ErrorResponseClass own)) addStack =
        Inr (object [(''error'', error_prop (ErrorInstance ErrorResponseClass own) ''message''),
                     (''type'', error_prop (ErrorInstance ErrorResponseClass own) ''name''),
                     (''details'', error_prop (ErrorInstance ErrorResponseClass own) ''details'')])
   \<and> asMessageError (ThrownValue (JStr s)) addStack =
        Inr (object [(''error'', JStr s), (''type'', JStr ''string'')])
   \<and> ((\<forall>x. v \<noteq> JStr x) \<longrightarrow> truthy v \<longrightarrow> toString_of v = Method t \<longrightarrow>
        asMessageError (ThrownValue v) addStack =
          Inr (object [(''error'', JStr t), (''type'', JStr ''object''), (''details'', v)]))
   \<and> ((\<forall>x. w \<noteq> JStr x) \<longrightarrow>
        \<not> truthy w \<or> toString_of w = Absent \<or> (\<exists>d. toString_of w = OwnData d \<and> \<not> truthy d) \<longrightarrow>
        asMessageError (ThrownValue w) addStack =
          Inr (object [(''error'', JStr ''unknown error''), (''type'', JStr ''unknown''),
                       (''details'', w)]))
   \<and> ((\<forall>x. u \<noteq> JStr x) \<longrightarrow> truthy u \<longrightarrow> toString_of u = OwnData d \<longrightarrow> truthy d \<longrightarrow>
        asMessageError (ThrownValue u) addStack = Inl TypeError)
   \<and> (asMessageError e addStack = Inr m \<longrightarrow> map_of (own_props m) ''stack'' \<noteq> None \<longrightarrow> addStack)"
proof (intro conjI impI)
  show "asMessageError (ThrownError (ErrorInstance cls own)) addStack =
        Inr (object ([(''error'', error_prop (ErrorInstance cls own) ''message''),
                      (''type'', error_prop (ErrorInstance cls own) ''name'')] @
                     (if addStack then [(''stack'', error_prop (ErrorInstance cls own) ''stack'')]
                      else [])))"
    if "cls \<noteq> ErrorResponseClass"
    using that by (simp add: Let_def)
  show "asMessageError (ThrownError (ErrorInstance ErrorResponseClass own)) addStack =
        Inr (object [(''error'', error_prop (ErrorInstance ErrorResponseClass own) ''message''),
                     (''type'', error_prop (ErrorInstance ErrorResponseClass own) ''name''),
                     (''details'', error_prop (ErrorInstance ErrorResponseClass own) ''details'')])"
    by (simp add: Let_def)
  show "asMessageError (ThrownValue (JStr s)) addStack =
        Inr (object [(''error'', JStr s), (''type'', JStr ''string'')])"
    by simp
  show "asMessageError (ThrownValue v) addStack =
          Inr (object [(''error'', JStr t), (''type'', JStr ''object''), (''details'', v)])"
    if "\<forall>x. v \<noteq> JStr x" "truthy v" "toString_of v = Method t"
    using that by (cases v) (auto simp: Let_def)
  show "asMessageError (ThrownValue w) addStack =
          Inr (object [(''error'', JStr ''unknown error''), (''type'', JStr ''unknown''),
                       (''details'', w)])"
    if "\<forall>x. w \<noteq> JStr x"
      "\<not> truthy w \<or> toString_of w = Absent \<or> (\<exists>d. toString_of w = OwnData d \<and> \<not> truthy d)"
    using that by (cases w) (auto simp: Let_def)
  show "asMessageError (ThrownValue u) addStack = Inl TypeError"
    if "\<forall>x. u \<noteq> JStr x" "truthy u" "toString_of u = OwnData d" "truthy d"
    using that by (cases u) (auto simp: Let_def)
  show addStack
    if "asMessageError e addStack = Inr m" "map_of (own_props m) ''stack'' \<noteq> None"
  proof (cases e)
    case (ThrownError err)
    then show ?thesis using that
      by (cases err) (auto simp: Let_def object_def split: if_splits)
  next
    case (ThrownValue x)
    then show ?thesis using that
      by (cases x) (auto simp: Let_def object_def split: toString_prop.splits if_splits)
  qed
qed

theorem asMessageError_table_witness:
  "asMessageError (ThrownError (ErrorInstance (NativeError ''TypeError'')
        [(''message'', JStr ''x is not a function''), (''stack'', JStr ''TypeError: x is not a function at h'')])) True
     = Inr (object [(''error'', JStr ''x is not a function''), (''type'', JStr ''TypeError''),
                    (''stack'', JStr ''TypeError: x is not a function at h'')])
   \<and> asMessageError (ThrownError (ErrorResponse ''Name is invalid'' (object [(''name'', JStr ''socket'')]) ''Error at h'')) True
     = Inr (object [(''error'', JStr ''Name is invalid''), (''type'', JStr ''Error''),
                    (''details'', object [(''name'', JStr ''socket'')])])
   \<and> asMessageError (ThrownValue (JStr ''oops'')) True
     = Inr (object [(''error'', JStr ''oops''), (''type'', JStr ''string'')])
   \<and> asMessageError (ThrownValue (JObj (CustomToString ''a thing'') [])) True
     = Inr (object [(''error'', JStr ''a thing''), (''type'', JStr ''object''),
                    (''details'', JObj (CustomToString ''a thing'') [])])
   \<and> asMessageError (ThrownValue (object [(''toString'', JNull)])) True
     = Inr (object [(''error'', JStr ''unknown error''), (''type'', JStr ''unknown''),
                    (''details'', object [(''toString'', JNull)])])
   \<and> asMessageError (ThrownValue (object [(''toString'', JNum ''1'')])) True = Inl TypeError"
  using asMessageError_table[of "NativeError ''TypeError''"
      "[(''message'', JStr ''x is not a function''), (''stack'', JStr ''TypeError: x is not a function at h'')]"
      True "''oops''" "JObj (CustomToString ''a thing'') []" "''a thing''"
      "object [(''toString'', JNull)]" "object [(''toString'', JNum ''1'')]" "JNum ''1''"
      "ThrownError (ErrorInstance (NativeError ''TypeError'')
        [(''message'', JStr ''x is not a function''), (''stack'', JStr ''TypeError: x is not a function at h'')])"
      "object [(''error'', JStr ''x is not a function''), (''type'', JStr ''TypeError''),
               (''stack'', JStr ''TypeError: x is not a function at h'')]"]
    asMessageError_table[of "NativeError ''TypeError''"
      "[(''message'', JStr ''Name is invalid''), (''stack'', JStr ''Error at h''), (''details'', object [(''name'', JStr ''socket'')])]"
      True]
  by (simp add: ErrorResponse_def object_def)

lemma map_of_fold_update:
  "distinct (map fst rest) \<Longrightarrow>
   map_of (fold (\<lambda>(k, v). AList.update k v) rest base) k =
     (case map_of rest k of Some v \<Rightarrow> Some v | None \<Rightarrow> map_of base k)"
proof (induction rest arbitrary: base)
  case Nil
  then show ?case by simp
next
  case (Cons a rest)
  obtain k' v' where a: "a = (k', v')" by (cases a)
  have "map_of rest k' = None"
    using Cons.prems a by (auto simp: map_of_eq_None_iff)
  then show ?case
    using Cons a by (auto simp: update_conv' split: option.splits)
qed

lemma map_of_rest:
  "map_of (filter (\<lambda>(k, v). k \<noteq> ''error'' \<and> k \<noteq> ''stack'') props) k =
     (if k = ''error'' \<or> k = ''stack'' then None else map_of props k)"
  by (induction props) auto

text \<open>
  C5 fails on the code: the failure's kind is not the message's \<^verbatim>\<open>type\<close>. For a message
  of type \<^verbatim>\<open>TypeError\<close> with a stack, the raised failure's name is \<^verbatim>\<open>Error\<close> and its
  trace starts with \<^verbatim>\<open>Error: \<close>, not with \<^verbatim>\<open>TypeError\<close>.
\<close>

theorem remote_error_name_counterexample:
  "RemoteError [(''error'', JStr ''boom''), (''type'', JStr ''TypeError''), (''stack'', JStr ''at f'')]
     = Inr (ErrorInstance RemoteErrorClass
             [(''message'', JStr ''boom''), (''stack'', JStr ''Error: at f''), (''type'', JStr ''TypeError'')])
   \<and> error_prop (ErrorInstance RemoteErrorClass
             [(''message'', JStr ''boom''), (''stack'', JStr ''Error: at f''), (''type'', JStr ''TypeError'')])
         ''name'' = JStr ''Error''
   \<and> \<not> prefix ''TypeError'' ''Error: at f''"
  by (simp add: RemoteError_def)

text \<open>
  C5, amended. For an Error-variant message (distinct fields among the six of the interface,
  \<^verbatim>\<open>error\<close> a string, \<^verbatim>\<open>stack\<close> absent or a string) the constructor does not raise;
  the failure's message is the message's \<^verbatim>\<open>error\<close>; its name is \<^verbatim>\<open>Error\<close>; its trace
  is \<^verbatim>\<open>Error: \<close> followed by the message's \<^verbatim>\<open>stack\<close> when that is present and not
  empty, and the empty string otherwise; and every other field of the message (\<^verbatim>\<open>id\<close>,
  \<^verbatim>\<open>type\<close>, \<^verbatim>\<open>invalidResponse\<close>, \<^verbatim>\<open>details\<close>) is a property of the failure with
  the same value.
\<close>

theorem remote_error_fields:
  assumes "distinct (map fst props)"
    and "set (map fst props) \<subseteq> {''id'', ''error'', ''type'', ''invalidResponse'', ''stack'', ''details''}"
    and "map_of props ''error'' = Some (JStr e)"
    and "map_of props ''stack'' = None \<or> map_of props ''stack'' = Some (JStr s)"
  shows "\<exists>r. RemoteError props = Inr r
           \<and> error_prop r ''message'' = JStr e
           \<and> error_prop r ''name'' = JStr ''Error''
           \<and> error_prop r ''stack'' =
               JStr (if map_of props ''stack'' = None \<or> s = [] then [] else ''Error: '' @ s)
           \<and> (\<forall>k v. k \<noteq> ''error'' \<longrightarrow> k \<noteq> ''stack'' \<longrightarrow> map_of props k = Some v \<longrightarrow>
                 error_prop r k = v)"
proof -
  define st where "st = (if map_of props ''stack'' = None \<or> s = [] then [] else ''Error: '' @ s)"
  define rest where "rest = filter (\<lambda>(k, v). k \<noteq> ''error'' \<and> k \<noteq> ''stack'') props"
  define base where "base = AList.update ''stack'' (JStr st) [(''message'', JStr e)]"
  define own where "own = fold (\<lambda>(k, v). AList.update k v) rest base"
  have d: "distinct (map fst rest)"
    using assms(1) by (simp add: rest_def distinct_map_filter)
  have nm: "map_of props ''message'' = None" "map_of props ''name'' = None"
    using assms(2) by (auto simp: map_of_eq_None_iff)
  have R: "RemoteError props = Inr (ErrorInstance RemoteErrorClass own)"
    using assms(3,4) by (auto simp: RemoteError_def Let_def own_def base_def rest_def st_def)
  have look: "map_of own k = (case map_of rest k of Some v \<Rightarrow> Some v | None \<Rightarrow> map_of base k)" for k
    unfolding own_def by (rule map_of_fold_update[OF d])
  have rst: "map_of rest k = (if k = ''error'' \<or> k = ''stack'' then None else map_of props k)" for k
    unfolding rest_def by (rule map_of_rest)
  have bs: "map_of base k =
      (if k = ''stack'' then Some (JStr st) else if k = ''message'' then Some (JStr e) else None)" for k
    by (simp add: base_def)
  have "error_prop (ErrorInstance RemoteErrorClass own) ''message'' = JStr e"
    using nm by (simp add: look rst bs)
  moreover have "error_prop (ErrorInstance RemoteErrorClass own) ''name'' = JStr ''Error''"
    using nm by (simp add: look rst bs)
  moreover have "error_prop (ErrorInstance RemoteErrorClass own) ''stack'' = JStr st"
    by (simp add: look rst bs)
  moreover have "\<forall>k v. k \<noteq> ''error'' \<longrightarrow> k \<noteq> ''stack'' \<longrightarrow> map_of props k = Some v \<longrightarrow>
      error_prop (ErrorInstance RemoteErrorClass own) k = v"
    by (simp add: look rst)
  ultimately show ?thesis using R unfolding st_def by blast
qed

theorem remote_error_fields_witness:
  "RemoteError [(''id'', JStr ''c.0''), (''error'', JStr ''Name is invalid''), (''type'', JStr ''Error''),
                (''details'', object [(''name'', JStr ''socket'')]), (''stack'', JStr ''at handler'')]
    = Inr (ErrorInstance RemoteErrorClass
        [(''message'', JStr ''Name is invalid''), (''stack'', JStr ''Error: at handler''),
         (''id'', JStr ''c.0''), (''type'', JStr ''Error''),
         (''details'', object [(''name'', JStr ''socket'')])])"
  using remote_error_fields[of
      "[(''id'', JStr ''c.0''), (''error'', JStr ''Name is invalid''), (''type'', JStr ''Error''),
        (''details'', object [(''name'', JStr ''socket'')]), (''stack'', JStr ''at handler'')]"
      "''Name is invalid''" "''at handler''"]
  by (simp add: RemoteError_def)


section \<open>Properties of the Id Generator\<close>

text \<open>The text of a number in a radix from 2 to 36 determines the number.\<close>

lemma digit_char_inj:
  "d < 36 \<Longrightarrow> d' < 36 \<Longrightarrow> digit_char d = digit_char d' \<Longrightarrow> d = d'"
proof -
  have dis: "distinct ''0123456789abcdefghijklmnopqrstuvwxyz''" by simp
  have len: "length ''0123456789abcdefghijklmnopqrstuvwxyz'' = 36" by simp
  show "d < 36 \<Longrightarrow> d' < 36 \<Longrightarrow> digit_char d = digit_char d' \<Longrightarrow> d = d'"
    unfolding digit_char_def using nth_eq_iff_index_eq[OF dis, of d d'] len by simp
qed

lemma radix_digits_small: "n < r \<Longrightarrow> radix_digits r n = [digit_char n]"
  by (subst radix_digits.simps) simp

lemma radix_digits_big:
  "2 \<le> r \<Longrightarrow> r \<le> n \<Longrightarrow> radix_digits r n = radix_digits r (n div r) @ [digit_char (n mod r)]"
  by (subst radix_digits.simps) simp

lemma radix_digits_nonempty: "radix_digits r n \<noteq> []"
  by (subst radix_digits.simps) simp

lemma radix_digits_inj:
  assumes "2 \<le> r" and "r \<le> 36"
  shows "radix_digits r n = radix_digits r m \<Longrightarrow> n = m"
proof (induction n arbitrary: m rule: less_induct)
  case (less n)
  show ?case
  proof (cases "n < r")
    case True
    show ?thesis
    proof (cases "m < r")
      case mr: True
      then have "digit_char n = digit_char m"
        using less.prems True by (simp add: radix_digits_small)
      then show ?thesis using digit_char_inj[of n m] True mr assms by simp
    next
      case False
      then have "radix_digits r m = radix_digits r (m div r) @ [digit_char (m mod r)]"
        using assms by (simp add: radix_digits_big)
      then show ?thesis
        using less.prems True radix_digits_nonempty[of r "m div r"]
        by (simp add: radix_digits_small)
    qed
  next
    case False
    then have n: "radix_digits r n = radix_digits r (n div r) @ [digit_char (n mod r)]"
      using assms by (simp add: radix_digits_big)
    show ?thesis
    proof (cases "m < r")
      case True
      then show ?thesis
        using less.prems n radix_digits_nonempty[of r "n div r"]
        by (simp add: radix_digits_small)
    next
      case mr: False
      then have m: "radix_digits r m = radix_digits r (m div r) @ [digit_char (m mod r)]"
        using assms by (simp add: radix_digits_big)
      have e: "radix_digits r (n div r) = radix_digits r (m div r)"
        "digit_char (n mod r) = digit_char (m mod r)"
        using less.prems n m by simp_all
      have "n div r < n" using False assms by simp
      then have d: "n div r = m div r" using e(1) by (rule less.IH)
      have "0 < r" using assms by simp
      then have nr: "n mod r < r" and mr': "m mod r < r" by simp_all
      have "n mod r < 36" by (rule less_le_trans[OF nr assms(2)])
      moreover have "m mod r < 36" by (rule less_le_trans[OF mr' assms(2)])
      ultimately have "n mod r = m mod r" using e(2) by (rule digit_char_inj)
      then show ?thesis using d by (metis div_mult_mod_eq)
    qed
  qed
qed

lemma invoke_state: "snd (invoke c p j) = c\<lparr>count := count c + 1\<rparr>"
  by (simp add: invoke_def Let_def split: sum.splits)

lemma invoke_all_Cons:
  "invoke_all c ((p, j) # args) =
     (fst (invoke c p j) # fst (invoke_all (snd (invoke c p j)) args),
      snd (invoke_all (snd (invoke c p j)) args))"
  by (simp split: prod.splits)

lemma invoke_all_length: "length (fst (invoke_all c args)) = length args"
proof (induction args arbitrary: c)
  case Nil
  then show ?case by simp
next
  case (Cons a args)
  then show ?case by (cases a) (simp add: invoke_all_Cons del: invoke_all.simps)
qed

lemma invoke_all_state:
  "snd (invoke_all c args) = c\<lparr>count := count c + length args\<rparr>"
proof (induction args arbitrary: c)
  case Nil
  then show ?case by simp
next
  case (Cons a args)
  then show ?case
    by (cases a) (simp add: invoke_all_Cons invoke_state del: invoke_all.simps)
qed

lemma invoke_all_nth:
  "i < length args \<Longrightarrow>
   fst (invoke_all c args) ! i =
     fst (invoke (c\<lparr>count := count c + i\<rparr>) (fst (args ! i)) (snd (args ! i)))"
proof (induction args arbitrary: c i)
  case Nil
  then show ?case by simp
next
  case (Cons a args)
  obtain p j where a: "a = (p, j)" by (cases a)
  show ?case
  proof (cases i)
    case 0
    then show ?thesis using a by (simp add: invoke_all_Cons del: invoke_all.simps)
  next
    case (Suc k)
    then have "k < length args" using Cons.prems by simp
    then show ?thesis
      using Cons.IH[of k "snd (invoke c p j)"] a Suc
      by (simp add: invoke_all_Cons invoke_state del: invoke_all.simps)
  qed
qed

lemma invoke_result:
  "fst (invoke c p j) =
     (case number_toString (count c) (radix c) of
        Inl x \<Rightarrow> Inl x
      | Inr s \<Rightarrow>
          Inr ((case p of None \<Rightarrow> [] | Some pre \<Rightarrow>
                  if pre = [] then [] else pre @ (case j of None \<Rightarrow> ''.'' | Some jn \<Rightarrow> jn)) @ s))"
  by (simp add: invoke_def Let_def split: sum.splits option.splits)

text \<open>With the same prefix and join, two invocations of one instance give different ids.\<close>

lemma invoke_valid_radix:
  "2 \<le> radix c \<Longrightarrow> radix c \<le> 36 \<Longrightarrow>
   fst (invoke c p j) =
     Inr ((case p of None \<Rightarrow> [] | Some pre \<Rightarrow>
             if pre = [] then [] else pre @ (case j of None \<Rightarrow> ''.'' | Some jn \<Rightarrow> jn)) @
          radix_digits (nat (radix c)) (count c))"
  by (simp add: invoke_result number_toString_def)

lemma invoke_all_distinct_ids:
  assumes "2 \<le> radix c" and "radix c \<le> 36"
    and "i < k" and "k < length args" and "args ! i = args ! k"
  shows "fst (invoke_all c args) ! i \<noteq> fst (invoke_all c args) ! k"
proof
  assume eq: "fst (invoke_all c args) ! i = fst (invoke_all c args) ! k"
  have r: "2 \<le> nat (radix c)" "nat (radix c) \<le> 36" using assms(1,2) by simp_all
  have "radix_digits (nat (radix c)) (count c + i) = radix_digits (nat (radix c)) (count c + k)"
    using eq assms by (simp add: invoke_all_nth invoke_valid_radix)
  then have "count c + i = count c + k" by (rule radix_digits_inj[OF r])
  then show False using assms(3) by simp
qed

text \<open>The reader's default generator is the counter with radix 16.\<close>

lemma default_idgen_is_counter:
  "invoke \<lparr>radix = 16, count = n\<rparr> p None =
     (Inr (fst (default_idgen p n)), \<lparr>radix = 16, count = snd (default_idgen p n)\<rparr>)"
  by (simp add: invoke_def default_idgen_def number_toString_def Let_def split: option.splits)

text \<open>
  C6. One invocation adds one to \<^verbatim>\<open>count\<close> and returns the prefix and the join (a dot
  unless given) followed by the text of the old count in the radix, or that text alone when
  the prefix is absent or empty; the text is that of \<^verbatim>\<open>toString(radix)\<close>, its digits for
  a radix from 2 to 36. Over any number of successive invocations of one instance, with any
  prefixes, the \<open>i\<close>-th invocation renders the value \<open>count + i\<close>: the values strictly
  increase and none repeats, and neither does an id among the invocations made with the same
  prefix and join. \<^verbatim>\<open>counter\<close> makes a fresh instance starting at 0 and leaves the
  existing ones as they are, and invoking one instance changes no other.
\<close>

theorem counter_invocations:
  "snd (invoke c p j) = c\<lparr>count := count c + 1\<rparr>
   \<and> fst (invoke c p j) =
       (case number_toString (count c) (radix c) of
          Inl x \<Rightarrow> Inl x
        | Inr s \<Rightarrow>
            Inr ((case p of None \<Rightarrow> [] | Some pre \<Rightarrow>
                    if pre = [] then [] else pre @ (case j of None \<Rightarrow> ''.'' | Some jn \<Rightarrow> jn)) @ s))
   \<and> (2 \<le> radix c \<and> radix c \<le> 36 \<longrightarrow>
        number_toString (count c) (radix c) = Inr (radix_digits (nat (radix c)) (count c)))
   \<and> snd (invoke_all c args) = c\<lparr>count := count c + length args\<rparr>
   \<and> length (fst (invoke_all c args)) = length args
   \<and> (\<forall>i < length args.
        fst (invoke_all c args) ! i =
          fst (invoke (snd (invoke_all c (take i args))) (fst (args ! i)) (snd (args ! i)))
        \<and> count (snd (invoke_all c (take i args))) = count c + i)
   \<and> (\<forall>i k. i < k \<longrightarrow> k \<le> length args \<longrightarrow>
        count (snd (invoke_all c (take i args))) < count (snd (invoke_all c (take k args))))
   \<and> (2 \<le> radix c \<and> radix c \<le> 36 \<longrightarrow>
        (\<forall>i k. i < k \<longrightarrow> k < length args \<longrightarrow> args ! i = args ! k \<longrightarrow>
           fst (invoke_all c args) ! i \<noteq> fst (invoke_all c args) ! k))
   \<and> (counter radix_arg h = (r, h') \<longrightarrow>
        r = length h \<and> length h' = Suc (length h)
        \<and> h' ! r = \<lparr>radix = (case radix_arg of None \<Rightarrow> 10 | Some x \<Rightarrow> x), count = 0\<rparr>
        \<and> (\<forall>q < length h. h' ! q = h ! q))
   \<and> (invoke_ref a p j s = Some (res, s') \<longrightarrow>
        a < length s \<and> length s' = length s
        \<and> (res, s' ! a) = invoke (s ! a) p j
        \<and> (\<forall>b. b \<noteq> a \<longrightarrow> s' ! b = s ! b))"
proof (intro conjI allI impI)
  show "snd (invoke c p j) = c\<lparr>count := count c + 1\<rparr>" by (rule invoke_state)
  show "fst (invoke c p j) =
       (case number_toString (count c) (radix c) of
          Inl x \<Rightarrow> Inl x
        | Inr s \<Rightarrow>
            Inr ((case p of None \<Rightarrow> [] | Some pre \<Rightarrow>
                    if pre = [] then [] else pre @ (case j of None \<Rightarrow> ''.'' | Some jn \<Rightarrow> jn)) @ s))"
    by (rule invoke_result)
  show "number_toString (count c) (radix c) = Inr (radix_digits (nat (radix c)) (count c))"
    if "2 \<le> radix c \<and> radix c \<le> 36"
    using that by (simp add: number_toString_def)
  show "snd (invoke_all c args) = c\<lparr>count := count c + length args\<rparr>" by (rule invoke_all_state)
  show "length (fst (invoke_all c args)) = length args" by (rule invoke_all_length)
  show "fst (invoke_all c args) ! i =
          fst (invoke (snd (invoke_all c (take i args))) (fst (args ! i)) (snd (args ! i)))"
    if "i < length args" for i
    using that by (simp add: invoke_all_nth invoke_all_state min_def)
  show "count (snd (invoke_all c (take i args))) = count c + i" if "i < length args" for i
    using that by (simp add: invoke_all_state)
  show "count (snd (invoke_all c (take i args))) < count (snd (invoke_all c (take k args)))"
    if "i < k" "k \<le> length args" for i k
    using that by (simp add: invoke_all_state)
  show "fst (invoke_all c args) ! i \<noteq> fst (invoke_all c args) ! k"
    if "2 \<le> radix c \<and> radix c \<le> 36" "i < k" "k < length args" "args ! i = args ! k" for i k
    using that by (simp add: invoke_all_distinct_ids)
next
  assume "counter radix_arg h = (r, h')"
  then have r: "r = length h"
    and h': "h' = h @ [\<lparr>radix = (case radix_arg of None \<Rightarrow> 10 | Some x \<Rightarrow> x), count = 0\<rparr>]"
    by (auto simp: counter_def)
  show "r = length h" by (rule r)
  show "length h' = Suc (length h)" by (simp add: h')
  show "h' ! r = \<lparr>radix = (case radix_arg of None \<Rightarrow> 10 | Some x \<Rightarrow> x), count = 0\<rparr>"
    by (simp add: r h')
  show "h' ! q = h ! q" if "q < length h" for q
    using that by (simp add: h' nth_append)
next
  assume ir: "invoke_ref a p j s = Some (res, s')"
  then show al: "a < length s" by (auto simp: invoke_ref_def split: if_splits)
  obtain x c' where i: "invoke (s ! a) p j = (x, c')" by (cases "invoke (s ! a) p j")
  then have e: "res = x" "s' = s[a := c']" using ir al by (auto simp: invoke_ref_def)
  show "length s' = length s" by (simp add: e)
  show "(res, s' ! a) = invoke (s ! a) p j" using al by (simp add: e i)
  show "s' ! b = s ! b" if "b \<noteq> a" for b using that by (simp add: e)
qed

theorem counter_invocations_witness:
  "invoke_all \<lparr>radix = 16, count = 254\<rparr>
       [(None, None), (Some ''a'', None), (Some ''a'', None), (Some [], Some ''-'')]
     = ([Inr ''fe'', Inr ''a.ff'', Inr ''a.100'', Inr ''101''], \<lparr>radix = 16, count = 258\<rparr>)
   \<and> counter None [\<lparr>radix = 16, count = 7\<rparr>]
     = (1, [\<lparr>radix = 16, count = 7\<rparr>, \<lparr>radix = 10, count = 0\<rparr>])
   \<and> invoke_ref 1 (Some ''svc'') None [\<lparr>radix = 16, count = 7\<rparr>, \<lparr>radix = 10, count = 12\<rparr>]
     = Some (Inr ''svc.12'', [\<lparr>radix = 16, count = 7\<rparr>, \<lparr>radix = 10, count = 13\<rparr>])
   \<and> invoke \<lparr>radix = 1, count = 3\<rparr> None None = (Inl RangeError, \<lparr>radix = 1, count = 4\<rparr>)"
  using counter_invocations[of "\<lparr>radix = 16, count = 254\<rparr>" "Some ''svc''" None
      "[(None, None), (Some ''a'', None), (Some ''a'', None), (Some [], Some ''-'')]"
      None "[\<lparr>radix = 16, count = 7\<rparr>]" 1 "[\<lparr>radix = 16, count = 7\<rparr>, \<lparr>radix = 10, count = 0\<rparr>]"
      1 "[\<lparr>radix = 16, count = 7\<rparr>, \<lparr>radix = 10, count = 12\<rparr>]"
      "Inr ''svc.12''" "[\<lparr>radix = 16, count = 7\<rparr>, \<lparr>radix = 10, count = 13\<rparr>]"]
  by (simp add: invoke_def number_toString_def radix_digits.simps digit_char_def counter_def
        invoke_ref_def)


section \<open>Properties of the Service\<close>

text \<open>
  C7 fails on the code: line 139 registers \<^verbatim>\<open>service.stop\<close> as a listener of the process's
  \<^verbatim>\<open>SIGINT\<close>. Starting a service on a process without registrations leaves one.
\<close>

theorem startService_registers_counterexample:
  "snd (startService (OnString ''link.sock'') False ''host'' 0 []) \<noteq> []"
  by (simp add: startService_def)

text \<open>
  C7, amended. Every call of \<^verbatim>\<open>startService\<close> adds exactly one registration to the
  process, \<^verbatim>\<open>service.stop\<close> for \<^verbatim>\<open>SIGINT\<close>, after the existing ones, whatever the options
  and whether or not a handler is passed.
\<close>

theorem startService_registers_sigint:
  "snd (startService options_arg handler hostname now proc) = proc @ [(''SIGINT'', ServiceStop)]"
  by (simp add: startService_def Let_def)

text \<open>
  C8, at the failing input: with \<^verbatim>\<open>serviceId: 'svc'\<close> supplied, line 130 skips the
  assignment and nothing else assigns \<^verbatim>\<open>service.id\<close>, which stays undefined.
\<close>

theorem startService_supplied_id_unassigned:
  "id_prop (fst (startService
      (Opts \<lparr>on = ''link.sock'', serviceId = Some ''svc'', log = False, traceErrors = None\<rparr>)
      False ''host'' 255 [])) = None"
  by (simp add: startService_def)

text \<open>
  The same for every supplied, non-empty id; and without one, the id is the host name, a dot
  and the start time in base 16.
\<close>

lemma startService_supplied_id:
  "serviceId os = Some s \<Longrightarrow> s \<noteq> [] \<Longrightarrow>
   id_prop (fst (startService (Opts os) handler hostname now proc)) = None"
  by (simp add: startService_def)

lemma startService_derived_id:
  "id_prop (fst (startService (OnString path) handler hostname now proc))
     = Some (hostname @ ''.'' @ radix_digits 16 now)"
  "serviceId os = None \<or> serviceId os = Some [] \<Longrightarrow>
   id_prop (fst (startService (Opts os) handler hostname now proc))
     = Some (hostname @ ''.'' @ radix_digits 16 now)"
  by (auto simp: startService_def)

end
